theory Spec2Isabelle
  imports Main "HOL-Library.Word"
begin

section \<open>Password-to-key derivation of lib/libspl/crypto.c\<close>

text \<open>
  The function \<open>crypto_pass2key\<close> of \<open>lib/libspl/crypto.c\<close> is embedded as a HOL function.
  Memory regions are byte lists, a write that leaves its region is the fault it is in C,
  the two AES primitives of \<open>aes.h\<close> (not among the sources) are parameters, and every
  invocation of \<open>aes_crypt_cbc\<close> is recorded in a call log.
\<close>

subsection \<open>Data\<close>

text \<open>
  Bytes are \<open>unsigned char\<close>. \<open>size_t\<close> is taken 64 bits wide, so that
  \<open>desired_keylen * 8\<close> wraps around at \<open>2 ^ 64\<close>. An \<open>int\<close> is only passed on and
  compared with 0, so it is an integer.
\<close>

type_synonym byte = "8 word"
type_synonym size_t = "64 word"
type_synonym uint32_t = "32 word"

text \<open>The byte order of the machine decides what \<open>memcpy(.., &iterations, 4)\<close> copies.\<close>

datatype endianness = Little_endian | Big_endian

definition native_bytes :: "endianness \<Rightarrow> uint32_t \<Rightarrow> byte list" where
  "native_bytes e w =
     (let le = map (\<lambda>k. ucast (drop_bit (8 * k) w)) [0, 1, 2, 3 :: nat]
      in case e of Little_endian \<Rightarrow> le | Big_endian \<Rightarrow> rev le)"

text \<open>\<open>uint32_t iterations = 1000; // As specified by Solaris\<close>\<close>

definition iterations :: uint32_t where
  "iterations = 1000"

datatype aes_mode = AES_ENCRYPT | AES_DECRYPT

text \<open>
  What the function takes from its environment. \<open>aes_setkey_enc ctx key keysize\<close> is given
  the 32 bytes of \<open>statickey\<close> and the key size in bits, and returns its status and the
  initialised context. \<open>aes_crypt_cbc ctx mode length iv input output\<close> is given the context,
  the mode, the length, the chaining value and the input, and returns its status with the
  context, the chaining value and the output as it leaves them (context and \<open>iv\<close> are passed
  by address, \<open>input\<close> and \<open>output\<close> are the same region). \<open>calloc_succeeds n\<close> tells whether
  \<open>calloc(1, n)\<close> returns a block.
\<close>

record 'ctx platform =
  aes_setkey_enc :: "byte list \<Rightarrow> size_t \<Rightarrow> int \<times> 'ctx"
  aes_crypt_cbc :: "'ctx \<Rightarrow> aes_mode \<Rightarrow> size_t \<Rightarrow> byte list \<Rightarrow> byte list
                      \<Rightarrow> int \<times> 'ctx \<times> byte list \<times> byte list"
  calloc_succeeds :: "size_t \<Rightarrow> bool"
  byte_order :: endianness

text \<open>One invocation of \<open>aes_crypt_cbc\<close>: what it was given and what it left behind.\<close>

record cbc_call =
  arg_length :: size_t
  arg_iv :: "byte list"
  arg_input :: "byte list"
  status :: int
  left_iv :: "byte list"
  left_output :: "byte list"

text \<open>
  An output parameter is a null pointer, or the address of a cell with its present content.
  A \<open>void *\<close> value is the null pointer (\<open>None\<close>) or the address of a heap block, given by the
  block's bytes.
\<close>

datatype 'a out_param = Null_param | Cell 'a

type_synonym voidp = "byte list option"

text \<open>A write beyond \<open>statickey[32]\<close>, or beyond the block of \<open>buffer\<close>.\<close>

datatype fault = Statickey_overrun | Buffer_overrun

text \<open>
  What the caller sees after the return: the returned \<open>int\<close>, the two output parameters,
  whether \<open>free(buffer)\<close> ran at \<open>out:\<close>, and the log of the cipher calls.
\<close>

record outcome =
  ret :: int
  keydata_out :: "voidp out_param"
  keylen_out :: "size_t out_param"
  buffer_freed :: bool
  cbc_calls :: "cbc_call list"

subsection \<open>Operations\<close>

text \<open>
  \<open>memcpy(&dst[off], src, n)\<close> on a region \<open>dst\<close>: the bytes written replace those at
  \<open>off, .., off + n - 1\<close>; \<open>None\<close> when the write leaves the region or the read leaves \<open>src\<close>.
\<close>

definition memcpy :: "byte list \<Rightarrow> nat \<Rightarrow> byte list \<Rightarrow> nat \<Rightarrow> byte list option" where
  "memcpy dst off src n =
     (if off + n \<le> length dst \<and> n \<le> length src
      then Some (take off dst @ take n src @ drop (off + n) dst)
      else None)"

text \<open>
  Lines 50 to 52: \<open>memset(statickey, 0, sizeof(statickey))\<close>, then
  \<open>memcpy(statickey, keydata, keydatalen < desired_keylen ? keydatalen : desired_keylen)\<close>,
  where \<open>keydatalen\<close> is the length of the region \<open>keydata\<close>.
\<close>

definition fill_statickey :: "byte list \<Rightarrow> size_t \<Rightarrow> byte list option" where
  "fill_statickey keydata desired_keylen =
     memcpy (replicate 32 0) 0 keydata
       (if length keydata < unat desired_keylen then length keydata else unat desired_keylen)"

text \<open>
  The key of \<open>desired_keylen * 8\<close> bits that \<open>aes_setkey_enc\<close> is pointed to: the first
  \<open>desired_keylen\<close> bytes at \<open>statickey\<close>. Beyond 32 bytes there is no such key in the array.
\<close>

definition seed_key :: "byte list \<Rightarrow> size_t \<Rightarrow> byte list option" where
  "seed_key keydata desired_keylen =
     (case fill_statickey keydata desired_keylen of
        None \<Rightarrow> None
      | Some statickey \<Rightarrow>
          if unat desired_keylen \<le> length statickey
          then Some (take (unat desired_keylen) statickey) else None)"

text \<open>
  Lines 69 to 73, once \<open>calloc(1, desired_keylen)\<close> has returned a block:
  \<open>memcpy(buffer, salt, saltlen); memcpy(&buffer[saltlen], &iterations, sizeof(iterations))\<close>.
\<close>

definition init_buffer :: "endianness \<Rightarrow> byte list \<Rightarrow> size_t \<Rightarrow> byte list option" where
  "init_buffer e salt desired_keylen =
     (case memcpy (replicate (unat desired_keylen) 0) 0 salt (length salt) of
        None \<Rightarrow> None
      | Some buffer \<Rightarrow> memcpy buffer (length salt) (native_bytes e iterations) 4)"

text \<open>One call \<open>ret = aes_crypt_cbc(&aes, AES_ENCRYPT, desired_keylen, iv, buffer, buffer)\<close>.\<close>

definition crypt_call ::
  "'ctx platform \<Rightarrow> size_t \<Rightarrow> 'ctx \<Rightarrow> byte list \<Rightarrow> byte list \<Rightarrow> cbc_call list
     \<Rightarrow> int \<times> 'ctx \<times> byte list \<times> byte list \<times> cbc_call list" where
  "crypt_call P n aes iv buffer calls =
     (case aes_crypt_cbc P aes AES_ENCRYPT n iv buffer of
        (r, aes', iv', buffer') \<Rightarrow>
          (r, aes', iv', buffer',
           calls @ [\<lparr>arg_length = n, arg_iv = iv, arg_input = buffer, status = r,
                     left_iv = iv', left_output = buffer'\<rparr>]))"

text \<open>
  The loop of lines 86 to 94 after its initialisation clause:
  \<open>for (..; !ret && (i < iterations); i++) ret = aes_crypt_cbc(..)\<close>. The counter stays
  within 0..1000, so it is a natural number.
\<close>

function for_loop ::
  "'ctx platform \<Rightarrow> size_t \<Rightarrow> int \<Rightarrow> nat \<Rightarrow> 'ctx \<Rightarrow> byte list \<Rightarrow> byte list \<Rightarrow> cbc_call list
     \<Rightarrow> int \<times> nat \<times> 'ctx \<times> byte list \<times> byte list \<times> cbc_call list" where
  "for_loop P n r i aes iv buffer calls =
     (if r = 0 \<and> i < unat iterations
      then (case crypt_call P n aes iv buffer calls of
              (r', aes', iv', buffer', calls') \<Rightarrow> for_loop P n r' (i + 1) aes' iv' buffer' calls')
      else (r, i, aes, iv, buffer, calls))"
  by pat_completeness auto
termination
  by (relation "measure (\<lambda>(P, n, r, i, aes, iv, buffer, calls). unat iterations - i)") auto

text \<open>
  The label \<open>out:\<close> frees \<open>buffer\<close> when it is not null and returns \<open>ret\<close>
  (\<open>work\<close> is null throughout).
\<close>

definition out_label ::
  "int \<Rightarrow> voidp \<Rightarrow> voidp out_param \<Rightarrow> size_t out_param \<Rightarrow> cbc_call list \<Rightarrow> outcome" where
  "out_label r buffer out_keydata out_keylen calls =
     \<lparr>ret = r, keydata_out = out_keydata, keylen_out = out_keylen,
      buffer_freed = (buffer \<noteq> None), cbc_calls = calls\<rparr>"

text \<open>
  The whole function. \<open>ret\<close> starts as -1 and \<open>iv\<close> as sixteen zero bytes; the assignment
  \<open>len = saltlen + sizeof(iterations)\<close> of line 67 is never read and is left out.
\<close>

definition crypto_pass2key ::
  "'ctx platform \<Rightarrow> byte list \<Rightarrow> byte list \<Rightarrow> size_t \<Rightarrow> voidp out_param \<Rightarrow> size_t out_param
     \<Rightarrow> fault + outcome" where
  "crypto_pass2key P keydata salt desired_keylen out_keydata out_keylen =
     (case fill_statickey keydata desired_keylen of
        None \<Rightarrow> Inl Statickey_overrun
      | Some statickey \<Rightarrow>
          (case aes_setkey_enc P statickey (desired_keylen * 8) of
             (rc, aes) \<Rightarrow>
               if rc \<noteq> 0 then Inr (out_label (- 1) None out_keydata out_keylen [])
               else if \<not> calloc_succeeds P desired_keylen
               then Inr (out_label (- 1) None out_keydata out_keylen [])
               else
                 (case init_buffer (byte_order P) salt desired_keylen of
                    None \<Rightarrow> Inl Buffer_overrun
                  | Some buffer0 \<Rightarrow>
                      (case crypt_call P desired_keylen aes (replicate 16 0) buffer0 [] of
                         (r0, aes0, iv0, buffer1, calls0) \<Rightarrow>
                           (case for_loop P desired_keylen r0 0 aes0 iv0 buffer1 calls0 of
                              (r, i, aes', iv', buffer, calls) \<Rightarrow>
                                if i < unat iterations
                                then Inr (out_label r (Some buffer) out_keydata out_keylen calls)
                                else
                                  Inr (out_label 0
                                        (case out_keydata of
                                           Null_param \<Rightarrow> Some buffer | Cell _ \<Rightarrow> None)
                                        (case out_keydata of
                                           Null_param \<Rightarrow> Null_param
                                         | Cell _ \<Rightarrow> Cell (Some buffer))
                                        (case out_keylen of
                                           Null_param \<Rightarrow> Null_param
                                         | Cell _ \<Rightarrow> Cell desired_keylen)
                                        calls))))))"

subsection \<open>Reading the call log\<close>

text \<open>
  A log is chained from \<open>iv\<close> and \<open>buf\<close> when its first call was given them and every later
  call was given what the call before it left behind.
\<close>

fun chained :: "byte list \<Rightarrow> byte list \<Rightarrow> cbc_call list \<Rightarrow> bool" where
  "chained iv buf [] = True"
| "chained iv buf (c # cs) =
     (arg_iv c = iv \<and> arg_input c = buf \<and> chained (left_iv c) (left_output c) cs)"

definition log_end :: "byte list \<Rightarrow> byte list \<Rightarrow> cbc_call list \<Rightarrow> byte list \<times> byte list" where
  "log_end iv buf cs =
     (if cs = [] then (iv, buf) else (left_iv (last cs), left_output (last cs)))"

subsection \<open>Cipher primitives\<close>

text \<open>
  Modelled from the spec: a functioning Block Cipher Primitive; \<open>aes.h\<close> and the code behind
  it are not among the sources. It accepts exactly the key sizes of 128, 192 and 256 bits
  and none of its encryption calls fails.
\<close>

definition functioning :: "'ctx platform \<Rightarrow> bool" where
  "functioning P =
     ((\<forall>key keysize. (fst (aes_setkey_enc P key keysize) = 0) = (keysize \<in> {128, 192, 256}))
      \<and> (\<forall>aes mode n iv input. fst (aes_crypt_cbc P aes mode n iv input) = 0))"

text \<open>
  A stand-in for the cipher, to run the function on. Its context counts the encryption
  calls made so far; a call adds one to every byte and leaves the result as chaining value
  too; the call made when the count is \<open>fail_at\<close> returns -1 and changes no byte. Every
  allocation succeeds.
\<close>

definition stub :: "nat option \<Rightarrow> endianness \<Rightarrow> nat platform" where
  "stub fail_at e =
     \<lparr>aes_setkey_enc =
        (\<lambda>key keysize. (if keysize = 128 \<or> keysize = 192 \<or> keysize = 256 then 0 else - 1, 0)),
      aes_crypt_cbc =
        (\<lambda>aes mode n iv input.
           if Some aes = fail_at then (- 1, Suc aes, iv, input)
           else (0, Suc aes, map (\<lambda>b. b + 1) input, map (\<lambda>b. b + 1) input)),
      calloc_succeeds = (\<lambda>n. True),
      byte_order = e\<rparr>"


text \<open>The same stand-in on a machine whose allocator returns no block.\<close>

definition stub_no_memory :: "endianness \<Rightarrow> nat platform" where
  "stub_no_memory e = (stub None e)\<lparr>calloc_succeeds := (\<lambda>n. False)\<rparr>"

section \<open>Properties\<close>

subsection \<open>The two buffers\<close>

declare for_loop.simps [simp del]

lemma length_native_bytes: "length (native_bytes e w) = 4"
  by (cases e) (simp_all add: native_bytes_def)

lemma native_bytes_iterations:
  "native_bytes Little_endian iterations = [232, 3, 0, 0]"
  "native_bytes Big_endian iterations = [0, 0, 3, 232]"
  by (simp_all add: native_bytes_def iterations_def)

lemma fill_statickey_eq:
  "fill_statickey keydata d =
     (if min (length keydata) (unat d) \<le> 32
      then Some (take (min (length keydata) (unat d)) keydata
                   @ replicate (32 - min (length keydata) (unat d)) 0)
      else None)"
  by (auto simp: fill_statickey_def memcpy_def min_def)

lemma init_buffer_eq:
  "init_buffer e salt d =
     (if length salt + 4 \<le> unat d
      then Some (salt @ native_bytes e iterations @ replicate (unat d - (length salt + 4)) 0)
      else None)"
  by (auto simp: init_buffer_def memcpy_def length_native_bytes)

lemma seed_key_eq:
  "seed_key keydata d =
     (if unat d \<le> 32
      then Some (take (min (length keydata) (unat d)) keydata
                   @ replicate (unat d - min (length keydata) (unat d)) 0)
      else None)"
  by (auto simp: seed_key_def fill_statickey_eq min_def)

lemma fill_statickey_take:
  "fill_statickey (take (unat d) keydata) d = fill_statickey keydata d"
  by (simp add: fill_statickey_eq min_def)

lemma pass2key_take:
  "crypto_pass2key P (take (unat d) keydata) salt d okd okl = crypto_pass2key P keydata salt d okd okl"
  by (simp add: crypto_pass2key_def fill_statickey_take)

subsection \<open>The loop\<close>

lemma for_loop_stop:
  "\<not> (r = 0 \<and> i < 1000) \<Longrightarrow>
   for_loop P n r i aes iv buffer calls = (r, i, aes, iv, buffer, calls)"
  by (subst for_loop.simps) (auto simp: iterations_def)

lemma for_loop_step:
  "i < 1000 \<Longrightarrow> aes_crypt_cbc P aes AES_ENCRYPT n iv buffer = (r1, aes1, iv1, buffer1) \<Longrightarrow>
   for_loop P n 0 i aes iv buffer calls =
     for_loop P n r1 (Suc i) aes1 iv1 buffer1
       (calls @ [\<lparr>arg_length = n, arg_iv = iv, arg_input = buffer, status = r1,
                  left_iv = iv1, left_output = buffer1\<rparr>])"
  by (subst for_loop.simps) (simp add: iterations_def crypt_call_def)

lemma chained_snoc:
  "chained iv buf (cs @ [c]) =
     (chained iv buf cs \<and> (arg_iv c, arg_input c) = log_end iv buf cs)"
  by (induction cs arbitrary: iv buf) (auto simp: log_end_def)

text \<open>
  The loop leaves with a failed call or with the counter at 1000, and it has made one call
  for each step of the counter.
\<close>

lemma for_loop_counter:
  "for_loop P n r i aes iv buffer calls = (r', i', aes', iv', buffer', calls') \<Longrightarrow>
   i \<le> i' \<and> (i \<le> 1000 \<longrightarrow> i' \<le> 1000) \<and> (r' \<noteq> 0 \<or> 1000 \<le> i')
   \<and> length calls' = length calls + (i' - i) \<and> (\<exists>ext. calls' = calls @ ext)"
proof (induction "1000 - i" arbitrary: r i aes iv buffer calls)
  case 0
  then show ?case by (simp add: for_loop_stop)
next
  case (Suc k)
  show ?case
  proof (cases "r = 0")
    case True
    obtain r1 aes1 iv1 buffer1 where
      c: "aes_crypt_cbc P aes AES_ENCRYPT n iv buffer = (r1, aes1, iv1, buffer1)"
      by (metis prod_cases4)
    have i: "i < 1000" using Suc.hyps(2) by simp
    have k: "k = 1000 - Suc i" using Suc.hyps(2) by simp
    from Suc.hyps(1) [OF k Suc.prems [unfolded True for_loop_step [OF i c]]]
    show ?thesis using i by auto
  next
    case False
    then show ?thesis using Suc.prems by (simp add: for_loop_stop)
  qed
qed

text \<open>
  The log stays chained, its end is what the loop holds in \<open>iv\<close> and \<open>buffer\<close>, the status of
  its last call is what the loop holds in \<open>ret\<close>, and no call before the last has failed.
\<close>

lemma for_loop_log:
  assumes "for_loop P n r i aes iv buffer calls = (r', i', aes', iv', buffer', calls')"
    and "chained iv0 b0 calls" and "log_end iv0 b0 calls = (iv, buffer)"
    and "\<forall>c\<in>set calls. arg_length c = n"
    and "calls \<noteq> []" and "status (last calls) = r"
    and "\<forall>c\<in>set (butlast calls). status c = 0"
  shows "chained iv0 b0 calls' \<and> log_end iv0 b0 calls' = (iv', buffer')
    \<and> (\<forall>c\<in>set calls'. arg_length c = n)
    \<and> status (last calls') = r' \<and> (\<forall>c\<in>set (butlast calls'). status c = 0)"
  using assms
proof (induction "1000 - i" arbitrary: r i aes iv buffer calls)
  case 0
  then show ?case by (simp add: for_loop_stop)
next
  case (Suc k)
  show ?case
  proof (cases "r = 0")
    case True
    obtain r1 aes1 iv1 buffer1 where
      c: "aes_crypt_cbc P aes AES_ENCRYPT n iv buffer = (r1, aes1, iv1, buffer1)"
      by (metis prod_cases4)
    let ?c = "\<lparr>arg_length = n, arg_iv = iv, arg_input = buffer, status = r1,
                  left_iv = iv1, left_output = buffer1\<rparr>"
    have i: "i < 1000" using Suc.hyps(2) by simp
    have k: "k = 1000 - Suc i" using Suc.hyps(2) by simp
    have run: "for_loop P n r1 (Suc i) aes1 iv1 buffer1 (calls @ [?c])
                 = (r', i', aes', iv', buffer', calls')"
      using Suc.prems(1) by (simp add: True for_loop_step [OF i c])
    have a: "chained iv0 b0 (calls @ [?c])"
      using Suc.prems(2,3) by (simp add: chained_snoc)
    have b: "log_end iv0 b0 (calls @ [?c]) = (iv1, buffer1)"
      by (simp add: log_end_def)
    have d: "\<forall>c\<in>set (calls @ [?c]). arg_length c = n"
      using Suc.prems(4) by simp
    have e: "\<forall>c\<in>set (butlast (calls @ [?c])). status c = 0"
    proof
      fix x assume "x \<in> set (butlast (calls @ [?c]))"
      then have "x \<in> set calls" by simp
      then have "x \<in> set (butlast calls) \<or> x = last calls"
        using Suc.prems(5)
        by (metis append_butlast_last_id insert_iff list.set(2) rotate1.simps(2) set_rotate1)
      then show "status x = 0" using Suc.prems(6,7) True by auto
    qed
    from Suc.hyps(1) [OF k run a b d _ _ e]
    show ?thesis by simp
  next
    case False
    then show ?thesis using Suc.prems by (simp add: for_loop_stop)
  qed
qed


subsection \<open>The loop on particular primitives\<close>

lemma stub_simps:
  "aes_setkey_enc (stub f e) key ks = (if ks = 128 \<or> ks = 192 \<or> ks = 256 then 0 else - 1, 0)"
  "aes_crypt_cbc (stub f e) aes mode n iv input =
     (if Some aes = f then (- 1, Suc aes, iv, input)
      else (0, Suc aes, map (\<lambda>b. b + 1) input, map (\<lambda>b. b + 1) input))"
  "calloc_succeeds (stub f e) n"
  "byte_order (stub f e) = e"
  by (simp_all add: stub_def)

lemma functioning_stub: "functioning (stub None e)"
  by (simp add: functioning_def stub_simps)


lemma functioning_stub_no_memory: "functioning (stub_no_memory e)"
  by (simp add: functioning_def stub_no_memory_def stub_def)

lemma for_loop_all_ok:
  assumes ok: "\<forall>aes mode n iv input. fst (aes_crypt_cbc P aes mode n iv input) = 0"
  shows "i \<le> 1000 \<Longrightarrow>
    \<exists>aes' iv' buffer' calls'.
      for_loop P n 0 i aes iv buffer calls = (0, 1000, aes', iv', buffer', calls')"
proof (induction "1000 - i" arbitrary: i aes iv buffer calls)
  case 0
  then show ?case by (simp add: for_loop_stop)
next
  case (Suc k)
  obtain r1 aes1 iv1 buffer1 where
    c: "aes_crypt_cbc P aes AES_ENCRYPT n iv buffer = (r1, aes1, iv1, buffer1)"
    by (metis prod_cases4)
  have r1: "r1 = 0" using ok [rule_format, of aes AES_ENCRYPT n iv buffer] c by simp
  have i: "i < 1000" using Suc.hyps(2) by simp
  have k: "k = 1000 - Suc i" using Suc.hyps(2) by simp
  show ?case
    using Suc.hyps(1) [OF k, of aes1 iv1 buffer1] i
    by (simp add: for_loop_step [OF i c] r1)
qed

lemma stub_loop_through:
  "i \<le> 1000 \<Longrightarrow> \<forall>j. f = Some j \<longrightarrow> j < aes \<or> aes + (1000 - i) \<le> j \<Longrightarrow>
   \<exists>iv' calls'.
     for_loop (stub f e) n 0 i aes iv buf calls
       = (0, 1000, aes + (1000 - i), iv', map (\<lambda>b. b + of_nat (1000 - i)) buf, calls')"
proof (induction "1000 - i" arbitrary: i aes iv buf calls)
  case 0
  then show ?case by (simp add: for_loop_stop)
next
  case (Suc k)
  have i: "i < 1000" using Suc.hyps(2) by simp
  have k: "k = 1000 - Suc i" using Suc.hyps(2) by simp
  have nf: "Some aes \<noteq> f" using Suc.prems(2) i by auto
  have c: "aes_crypt_cbc (stub f e) aes AES_ENCRYPT n iv buf
             = (0, Suc aes, map (\<lambda>b. b + 1) buf, map (\<lambda>b. b + 1) buf)"
    using nf by (simp add: stub_simps)
  have h: "\<forall>j. f = Some j \<longrightarrow> j < Suc aes \<or> Suc aes + (1000 - Suc i) \<le> j"
    using Suc.prems(2) i by auto
  have m: "1000 - i = Suc (1000 - Suc i)" using i by simp
  show ?case
    using Suc.hyps(1) [OF k _ h, of "map (\<lambda>b. b + 1) buf" "map (\<lambda>b. b + 1) buf"] i
    by (simp add: for_loop_step [OF i c] m o_def add.assoc add.commute)
qed

lemma stub_loop_fail:
  "i < 1000 \<Longrightarrow> aes \<le> j \<Longrightarrow> j < aes + (1000 - i) \<Longrightarrow>
   \<exists>iv' calls'.
     for_loop (stub (Some j) e) n 0 i aes iv buf calls
       = (- 1, Suc (i + (j - aes)), Suc j, iv', map (\<lambda>b. b + of_nat (j - aes)) buf, calls')"
proof (induction "j - aes" arbitrary: i aes iv buf calls)
  case 0
  then have a: "aes = j" by simp
  have c: "aes_crypt_cbc (stub (Some j) e) j AES_ENCRYPT n iv buf = (- 1, Suc j, iv, buf)"
    by (simp add: stub_simps)
  show ?case
    by (simp add: for_loop_step [OF "0.prems"(1) c] for_loop_stop a)
next
  case (Suc k)
  have nf: "aes \<noteq> j" using Suc.hyps(2) by simp
  have c: "aes_crypt_cbc (stub (Some j) e) aes AES_ENCRYPT n iv buf
             = (0, Suc aes, map (\<lambda>b. b + 1) buf, map (\<lambda>b. b + 1) buf)"
    using nf by (simp add: stub_simps)
  have k: "k = j - Suc aes" using Suc.hyps(2) by simp
  have i': "Suc i < 1000" using Suc.prems Suc.hyps(2) by simp
  have le: "Suc aes \<le> j" using Suc.hyps(2) by simp
  have lt: "j < Suc aes + (1000 - Suc i)" using Suc.prems Suc.hyps(2) by simp
  have m: "j - aes = Suc (j - Suc aes)" using le by simp
  show ?case
    using Suc.hyps(1) [OF k i' le lt, of "map (\<lambda>b. b + 1) buf" "map (\<lambda>b. b + 1) buf"]
    by (simp add: for_loop_step [OF Suc.prems(1) c] m o_def add.assoc add.commute)
qed

subsection \<open>Whole runs\<close>

text \<open>The run once key setup and allocation are through.\<close>

lemma pass2key_loop_stage:
  assumes "fill_statickey keydata d = Some statickey"
    and "aes_setkey_enc P statickey (d * 8) = (0, aes)"
    and "calloc_succeeds P d"
    and "init_buffer (byte_order P) salt d = Some buffer0"
    and "aes_crypt_cbc P aes AES_ENCRYPT d (replicate 16 0) buffer0 = (r0, aes0, iv0, buffer1)"
    and "for_loop P d r0 0 aes0 iv0 buffer1
           [\<lparr>arg_length = d, arg_iv = replicate 16 0, arg_input = buffer0, status = r0,
             left_iv = iv0, left_output = buffer1\<rparr>] = (r, i, aes', iv', buffer, calls)"
  shows "crypto_pass2key P keydata salt d okd okl =
     (if i < 1000 then Inr (out_label r (Some buffer) okd okl calls)
      else Inr (out_label 0
             (case okd of Null_param \<Rightarrow> Some buffer | Cell _ \<Rightarrow> None)
             (case okd of Null_param \<Rightarrow> Null_param | Cell _ \<Rightarrow> Cell (Some buffer))
             (case okl of Null_param \<Rightarrow> Null_param | Cell _ \<Rightarrow> Cell d)
             calls))"
  using assms by (simp add: crypto_pass2key_def crypt_call_def iterations_def)

lemma stub_run_through:
  assumes d: "d * 8 = 128 \<or> d * 8 = 192 \<or> d * 8 = 256"
    and pw: "min (length keydata) (unat d) \<le> 32" and salt: "length salt + 4 \<le> unat d"
    and f: "\<forall>j. f = Some j \<longrightarrow> 1000 < j"
  shows "\<exists>calls. length calls = 1001 \<and>
     crypto_pass2key (stub f e) keydata salt d okd okl =
       Inr (out_label 0
             (case okd of Null_param \<Rightarrow>
                Some (map (\<lambda>b. b + 233) (salt @ native_bytes e iterations
                        @ replicate (unat d - (length salt + 4)) 0)) | Cell _ \<Rightarrow> None)
             (case okd of Null_param \<Rightarrow> Null_param | Cell _ \<Rightarrow>
                Cell (Some (map (\<lambda>b. b + 233) (salt @ native_bytes e iterations
                        @ replicate (unat d - (length salt + 4)) 0))))
             (case okl of Null_param \<Rightarrow> Null_param | Cell _ \<Rightarrow> Cell d)
             calls)"
proof -
  let ?P = "stub f e"
  let ?b0 = "salt @ native_bytes e iterations @ replicate (unat d - (length salt + 4)) 0"
  let ?b1 = "map (\<lambda>b. b + 1) ?b0"
  let ?c0 = "\<lparr>arg_length = d, arg_iv = replicate 16 0, arg_input = ?b0, status = 0,
             left_iv = ?b1, left_output = ?b1\<rparr>"
  obtain sk where sk: "fill_statickey keydata d = Some sk"
    using pw by (simp add: fill_statickey_eq)
  have k: "aes_setkey_enc ?P sk (d * 8) = (0, 0)" using d by (auto simp: stub_simps)
  have b: "init_buffer (byte_order ?P) salt d = Some ?b0"
    using salt by (simp add: init_buffer_eq stub_simps)
  have c: "aes_crypt_cbc ?P 0 AES_ENCRYPT d (replicate 16 0) ?b0 = (0, Suc 0, ?b1, ?b1)"
    using f by (auto simp: stub_simps)
  have h: "\<forall>j. f = Some j \<longrightarrow> j < Suc 0 \<or> Suc 0 + (1000 - 0) \<le> j" using f by auto
  from h stub_loop_through [where i = 0 and aes = "Suc 0" and f = f and e = e and n = d
      and iv = ?b1 and buf = ?b1 and calls = "[?c0]"]
  obtain iv' calls' where
    l: "for_loop ?P d 0 0 (Suc 0) ?b1 ?b1 [?c0]
          = (0, 1000, Suc 0 + (1000 - 0), iv', map (\<lambda>b. b + of_nat (1000 - 0)) ?b1, calls')"
    by auto
  have len: "length calls' = 1001" using for_loop_counter [OF l] by simp
  have key: "map (\<lambda>b. b + of_nat (1000 - 0)) ?b1 = map (\<lambda>b. b + 233) ?b0"
    by (simp add: o_def add.assoc)
  show ?thesis
    using pass2key_loop_stage [OF sk k stub_simps(3) b c l, of okd okl] len
    unfolding key by auto
qed

lemma stub_run_fail:
  assumes d: "d * 8 = 128 \<or> d * 8 = 192 \<or> d * 8 = 256"
    and pw: "min (length keydata) (unat d) \<le> 32" and salt: "length salt + 4 \<le> unat d"
    and j: "0 < j" "j \<le> 1000"
  shows "\<exists>calls. length calls = Suc j \<and> status (last calls) = - 1 \<and>
     crypto_pass2key (stub (Some j) e) keydata salt d okd okl =
       (if j < 1000
        then Inr (out_label (- 1)
               (Some (map (\<lambda>b. b + of_nat j) (salt @ native_bytes e iterations
                        @ replicate (unat d - (length salt + 4)) 0)))
               okd okl calls)
        else Inr (out_label 0
               (case okd of Null_param \<Rightarrow>
                  Some (map (\<lambda>b. b + of_nat j) (salt @ native_bytes e iterations
                          @ replicate (unat d - (length salt + 4)) 0)) | Cell _ \<Rightarrow> None)
               (case okd of Null_param \<Rightarrow> Null_param | Cell _ \<Rightarrow>
                  Cell (Some (map (\<lambda>b. b + of_nat j) (salt @ native_bytes e iterations
                          @ replicate (unat d - (length salt + 4)) 0))))
               (case okl of Null_param \<Rightarrow> Null_param | Cell _ \<Rightarrow> Cell d)
               calls))"
proof -
  let ?P = "stub (Some j) e"
  let ?b0 = "salt @ native_bytes e iterations @ replicate (unat d - (length salt + 4)) 0"
  let ?b1 = "map (\<lambda>b. b + 1) ?b0"
  let ?c0 = "\<lparr>arg_length = d, arg_iv = replicate 16 0, arg_input = ?b0, status = 0,
             left_iv = ?b1, left_output = ?b1\<rparr>"
  obtain sk where sk: "fill_statickey keydata d = Some sk"
    using pw by (simp add: fill_statickey_eq)
  have k: "aes_setkey_enc ?P sk (d * 8) = (0, 0)" using d by (auto simp: stub_simps)
  have b: "init_buffer (byte_order ?P) salt d = Some ?b0"
    using salt by (simp add: init_buffer_eq stub_simps)
  have c: "aes_crypt_cbc ?P 0 AES_ENCRYPT d (replicate 16 0) ?b0 = (0, Suc 0, ?b1, ?b1)"
    using j by (auto simp: stub_simps)
  from j stub_loop_fail [where i = 0 and aes = "Suc 0" and j = j and e = e and n = d
      and iv = ?b1 and buf = ?b1 and calls = "[?c0]"]
  obtain iv' calls' where
    l: "for_loop ?P d 0 0 (Suc 0) ?b1 ?b1 [?c0]
          = (- 1, Suc (0 + (j - Suc 0)), Suc j, iv',
             map (\<lambda>b. b + of_nat (j - Suc 0)) ?b1, calls')"
    by auto
  have i': "Suc (0 + (j - Suc 0)) = j" using j by simp
  have len: "length calls' = Suc j" using for_loop_counter [OF l] j by simp
  have st: "status (last calls') = - 1"
    using for_loop_log [OF l, of "replicate 16 0" ?b0] by (simp add: log_end_def)
  have "of_nat j = (1 :: byte) + of_nat (j - Suc 0)"
    using j by (metis Suc_pred of_nat_Suc)
  then have key: "map (\<lambda>b. b + of_nat (j - Suc 0)) ?b1 = map (\<lambda>b. b + of_nat j) ?b0"
    by (simp add: o_def add.assoc)
  show ?thesis
    using pass2key_loop_stage [OF sk k stub_simps(3) b c l, of okd okl] len st
    unfolding key i' by auto
qed

lemma stub_run_first_call_fails:
  assumes d: "d * 8 = 128 \<or> d * 8 = 192 \<or> d * 8 = 256"
    and pw: "min (length keydata) (unat d) \<le> 32" and salt: "length salt + 4 \<le> unat d"
  shows "crypto_pass2key (stub (Some 0) e) keydata salt d okd okl =
       Inr (out_label (- 1)
             (Some (salt @ native_bytes e iterations @ replicate (unat d - (length salt + 4)) 0))
             okd okl
             [\<lparr>arg_length = d, arg_iv = replicate 16 0,
               arg_input = salt @ native_bytes e iterations
                             @ replicate (unat d - (length salt + 4)) 0,
               status = - 1, left_iv = replicate 16 0,
               left_output = salt @ native_bytes e iterations
                               @ replicate (unat d - (length salt + 4)) 0\<rparr>])"
proof -
  let ?P = "stub (Some 0) e"
  let ?b0 = "salt @ native_bytes e iterations @ replicate (unat d - (length salt + 4)) 0"
  obtain sk where sk: "fill_statickey keydata d = Some sk"
    using pw by (simp add: fill_statickey_eq)
  have k: "aes_setkey_enc ?P sk (d * 8) = (0, 0)" using d by (auto simp: stub_simps)
  have b: "init_buffer (byte_order ?P) salt d = Some ?b0"
    using salt by (simp add: init_buffer_eq stub_simps)
  have c: "aes_crypt_cbc ?P 0 AES_ENCRYPT d (replicate 16 0) ?b0
             = (- 1, Suc 0, replicate 16 0, ?b0)"
    by (simp add: stub_simps)
  show ?thesis
    using pass2key_loop_stage [OF sk k stub_simps(3) b c for_loop_stop, of okd okl]
    by simp
qed

text \<open>With a key size that is accepted, a block that is allocated and a salt that fits,
  a primitive whose encryption calls all succeed makes the function return 0.\<close>

lemma pass2key_succeeds:
  assumes sk: "fill_statickey keydata d = Some statickey"
    and k: "fst (aes_setkey_enc P statickey (d * 8)) = 0"
    and a: "calloc_succeeds P d"
    and salt: "length salt + 4 \<le> unat d"
    and ok: "\<forall>aes mode n iv input. fst (aes_crypt_cbc P aes mode n iv input) = 0"
  shows "\<exists>out. crypto_pass2key P keydata salt d okd okl = Inr out \<and> ret out = 0"
proof -
  let ?b0 = "salt @ native_bytes (byte_order P) iterations
               @ replicate (unat d - (length salt + 4)) 0"
  obtain aes where k': "aes_setkey_enc P statickey (d * 8) = (0, aes)"
    using k by (metis prod.collapse)
  have b: "init_buffer (byte_order P) salt d = Some ?b0"
    using salt by (simp add: init_buffer_eq)
  obtain r0 aes0 iv0 buffer1 where
    c: "aes_crypt_cbc P aes AES_ENCRYPT d (replicate 16 0) ?b0 = (r0, aes0, iv0, buffer1)"
    by (metis prod_cases4)
  have r0: "r0 = 0" using ok [rule_format, of aes AES_ENCRYPT d "replicate 16 0" ?b0] c by simp
  from for_loop_all_ok [OF ok, where i = 0 and n = d and aes = aes0 and iv = iv0
      and buffer = buffer1
      and calls = "[\<lparr>arg_length = d, arg_iv = replicate 16 0, arg_input = ?b0, status = 0,
            left_iv = iv0, left_output = buffer1\<rparr>]"]
  obtain aes' iv' buffer' calls' where
    l: "for_loop P d r0 0 aes0 iv0 buffer1
          [\<lparr>arg_length = d, arg_iv = replicate 16 0, arg_input = ?b0, status = r0,
            left_iv = iv0, left_output = buffer1\<rparr>] = (0, 1000, aes', iv', buffer', calls')"
    unfolding r0 by auto
  show ?thesis
    using pass2key_loop_stage [OF sk k' a b c l, of okd okl]
    by (simp add: out_label_def)
qed

lemma pass2key_rejected:
  assumes "fill_statickey keydata d = Some statickey"
    and "fst (aes_setkey_enc P statickey (d * 8)) \<noteq> 0"
  shows "crypto_pass2key P keydata salt d okd okl = Inr (out_label (- 1) None okd okl [])"
  using assms by (auto simp: crypto_pass2key_def split: prod.splits)

lemma pass2key_no_block:
  assumes "fill_statickey keydata d = Some statickey"
    and "\<not> calloc_succeeds P d"
  shows "crypto_pass2key P keydata salt d okd okl = Inr (out_label (- 1) None okd okl [])"
  using assms by (simp add: crypto_pass2key_def split: prod.splits)

text \<open>The key size in bits, a \<open>size_t\<close>, names a length only below \<open>2 ^ 61\<close>.\<close>

lemma keysize_bits:
  assumes "unat d < 2 ^ 61"
  shows "(d * 8 \<in> {128, 192, 256}) = (d \<in> {16, 24, 32 :: size_t})"
proof -
  have u: "unat (d * 8) = unat d * 8"
    using assms by (simp add: unat_word_ariths)
  have e: "(d * 8 = w) = (unat d * 8 = unat w)" for w :: size_t
    using u by (simp add: word_unat_eq_iff)
  have f: "(d = w) = (unat d = unat w)" for w :: size_t
    by (simp add: word_unat_eq_iff)
  have "(d * 8 = 128) = (d = 16)" "(d * 8 = 192) = (d = 24)" "(d * 8 = 256) = (d = 32)"
    unfolding e f by auto
  then show ?thesis by simp
qed

lemma replicate_numeral: "replicate (numeral k) x = x # replicate (pred_numeral k) x"
  by (simp add: numeral_eq_Suc)

text \<open>
  What the log of a run that returned tells: it is chained from the zero \<open>iv\<close> and the
  assembled buffer, a failed call can only be its last, and it holds 1001 calls exactly when
  the function returned 0.
\<close>

lemma pass2key_log:
  assumes run: "crypto_pass2key P keydata salt d okd okl = Inr out"
    and calls: "cbc_calls out \<noteq> []"
  shows "init_buffer (byte_order P) salt d \<noteq> None
    \<and> chained (replicate 16 0) (the (init_buffer (byte_order P) salt d)) (cbc_calls out)
    \<and> (\<forall>c\<in>set (cbc_calls out). arg_length c = d)
    \<and> (\<forall>c\<in>set (butlast (cbc_calls out)). status c = 0)
    \<and> length (cbc_calls out) \<le> 1001
    \<and> (length (cbc_calls out) < 1001 \<longrightarrow>
          ret out = status (last (cbc_calls out)) \<and> ret out \<noteq> 0
          \<and> keydata_out out = okd \<and> keylen_out out = okl)
    \<and> (length (cbc_calls out) = 1001 \<longrightarrow>
          ret out = 0
          \<and> keydata_out out = (case okd of Null_param \<Rightarrow> Null_param
               | Cell _ \<Rightarrow> Cell (Some (left_output (last (cbc_calls out))))))"
proof -
  obtain sk where sk: "fill_statickey keydata d = Some sk"
    using run by (auto simp: crypto_pass2key_def split: option.splits)
  obtain rc aes where k: "aes_setkey_enc P sk (d * 8) = (rc, aes)" by (metis prod.collapse)
  have rc: "rc = 0" and a: "calloc_succeeds P d"
    using run calls sk k by (auto simp: crypto_pass2key_def out_label_def split: if_splits)
  obtain b0 where b: "init_buffer (byte_order P) salt d = Some b0"
    using run sk k rc a by (auto simp: crypto_pass2key_def split: option.splits)
  obtain r0 aes0 iv0 buffer1 where
    c: "aes_crypt_cbc P aes AES_ENCRYPT d (replicate 16 0) b0 = (r0, aes0, iv0, buffer1)"
    by (metis prod_cases4)
  let ?c0 = "\<lparr>arg_length = d, arg_iv = replicate 16 0, arg_input = b0, status = r0,
             left_iv = iv0, left_output = buffer1\<rparr>"
  obtain r i aes' iv' buffer calls' where
    l: "for_loop P d r0 0 aes0 iv0 buffer1 [?c0] = (r, i, aes', iv', buffer, calls')"
    by (metis prod_cases4)
  note stage = pass2key_loop_stage [OF sk k [unfolded rc] a b c l, of okd okl]
  note cnt = for_loop_counter [OF l]
  have lg: "chained (replicate 16 0) b0 calls'
    \<and> log_end (replicate 16 0) b0 calls' = (iv', buffer)
    \<and> (\<forall>c\<in>set calls'. arg_length c = d)
    \<and> status (last calls') = r \<and> (\<forall>c\<in>set (butlast calls'). status c = 0)"
    by (rule for_loop_log [OF l]) (simp_all add: log_end_def)
  have ne: "calls' \<noteq> []" using cnt by auto
  have buf: "buffer = left_output (last calls')" using lg ne by (simp add: log_end_def)
  have len: "length calls' = Suc i" using cnt by simp
  show ?thesis
  proof (cases "i < 1000")
    case True
    then have "out = out_label r (Some buffer) okd okl calls'"
      using run stage by simp
    then show ?thesis using True cnt lg len b by (auto simp: out_label_def)
  next
    case False
    then have i: "i = 1000" using cnt by simp
    have "out = out_label 0
             (case okd of Null_param \<Rightarrow> Some buffer | Cell _ \<Rightarrow> None)
             (case okd of Null_param \<Rightarrow> Null_param | Cell _ \<Rightarrow> Cell (Some buffer))
             (case okl of Null_param \<Rightarrow> Null_param | Cell _ \<Rightarrow> Cell d)
             calls'"
      using run stage False by simp
    then show ?thesis using i lg len b buf
      by (auto simp: out_label_def split: out_param.splits)
  qed
qed

text \<open>A run that returned 0 has made 1001 encryption calls, the first with the zero \<open>iv\<close>.\<close>

lemma returned_zero_log:
  assumes run: "crypto_pass2key P keydata salt d okd okl = Inr out" and r: "ret out = 0"
  shows "length (cbc_calls out) = 1001
    \<and> chained (replicate 16 0) (the (init_buffer (byte_order P) salt d)) (cbc_calls out)
    \<and> (\<forall>c\<in>set (butlast (cbc_calls out)). status c = 0)"
proof -
  have ne: "cbc_calls out \<noteq> []"
    using run r
    by (auto simp: crypto_pass2key_def out_label_def crypt_call_def
        split: option.splits prod.splits if_splits dest!: for_loop_counter)
  from pass2key_log [OF run ne] r show ?thesis
    by (cases "length (cbc_calls out) < 1001") auto
qed

lemma pass2key_first_call:
  assumes run: "crypto_pass2key P keydata salt d okd okl = Inr out"
    and calls: "cbc_calls out \<noteq> []"
  shows "length salt + 4 \<le> unat d
    \<and> arg_iv (hd (cbc_calls out)) = replicate 16 0
    \<and> arg_input (hd (cbc_calls out)) =
        salt @ native_bytes (byte_order P) iterations @ replicate (unat d - (length salt + 4)) 0"
proof -
  from pass2key_log [OF run calls]
  have b: "init_buffer (byte_order P) salt d \<noteq> None"
    and c: "chained (replicate 16 0) (the (init_buffer (byte_order P) salt d)) (cbc_calls out)"
    by simp_all
  from b have s: "length salt + 4 \<le> unat d" by (simp add: init_buffer_eq split: if_splits)
  obtain c0 cs where cs: "cbc_calls out = c0 # cs" using calls by (cases "cbc_calls out") auto
  show ?thesis using c s by (simp add: cs init_buffer_eq)
qed


section \<open>The claims\<close>

text \<open>
  Claim C1: a successful derivation performs exactly 1000 sequential encryption calls over
  the work buffer, with a chaining state that starts all-zero and is carried from call to
  call, and the derived key is the work buffer after those calls.

  The function makes one call in the initialisation clause of its loop and 1000 in the
  body. Run on the stand-in cipher with an empty password, an empty salt and a desired
  length of 16, it returns 0 after 1001 calls, and the key it stores is the assembled buffer
  \<open>e8 03 00 ..\<close> with 1001 (233 modulo 256) added to every byte, not 1000.
\<close>

theorem encryption_calls_of_a_successful_run:
  "map_sum id (\<lambda>out. (ret out, length (cbc_calls out), keydata_out out))
   (crypto_pass2key (stub None Little_endian) [] [] 16 (Cell None) (Cell 0))
   = Inr (0, 1001, Cell (Some [209, 236, 233, 233, 233, 233, 233, 233, 233, 233, 233, 233, 233, 233, 233, 233]))"
proof -
  from stub_run_through [where f = None and d = 16 and keydata = "[]" and salt = "[]"
      and e = Little_endian and okd = "Cell None" and okl = "Cell 0"]
  obtain calls where "length calls = 1001"
    and "crypto_pass2key (stub None Little_endian) [] [] 16 (Cell None) (Cell 0) =
       Inr (out_label 0 None
             (Cell (Some (map (\<lambda>b. b + 233) (native_bytes Little_endian iterations @ replicate 12 0))))
             (Cell 16) calls)"
    by auto
  then show ?thesis
    by (simp add: out_label_def native_bytes_iterations replicate_numeral)
qed

text \<open>
  Claim C2: when any of the chained encryption calls fails, at any iteration index including
  the final one, the function returns a failure and surfaces no key.

  After the loop the function tests \<open>i < iterations\<close>, not \<open>ret\<close>. When the call that fails
  is the one of the last pass (\<open>i = 999\<close>, the 1001st call), \<open>i\<close> has reached 1000 and the
  function stores the buffer and the length and returns 0: here with the stand-in cipher
  failing on that call.
\<close>

theorem failure_of_the_final_call:
  "map_sum id (\<lambda>out. (ret out, status (last (cbc_calls out)), length (cbc_calls out),
                               keydata_out out, keylen_out out))
   (crypto_pass2key (stub (Some 1000) Little_endian) [] [] 16 (Cell None) (Cell 0))
   = Inr (0, - 1, 1001,
          Cell (Some [208, 235, 232, 232, 232, 232, 232, 232, 232, 232, 232, 232, 232, 232, 232, 232]),
          Cell 16)"
proof -
  from stub_run_fail [where j = 1000 and d = 16 and keydata = "[]" and salt = "[]"
      and e = Little_endian and okd = "Cell None" and okl = "Cell 0"]
  obtain calls where "length calls = 1001" and "status (last calls) = - 1"
    and "crypto_pass2key (stub (Some 1000) Little_endian) [] [] 16 (Cell None) (Cell 0) =
       Inr (out_label 0 None
             (Cell (Some (map (\<lambda>b. b + 1000) (native_bytes Little_endian iterations @ replicate 12 0))))
             (Cell 16) calls)"
    by auto
  then show ?thesis
    by (simp add: out_label_def native_bytes_iterations replicate_numeral)
qed

text \<open>
  Claim C3: given a functioning block-cipher primitive, the function returns success for
  every desired key length in {16, 24, 32} and a key-setup failure for every other one.

  Proved with the conditions the code needs. For 16, 24 and 32 the function returns 0 when
  the block is allocated and \<open>len(salt) + 4\<close> does not exceed the desired length. For every
  other desired length, with at most 32 bytes to copy into \<open>statickey\<close>, it returns -1 before
  any encryption call, with nothing left allocated and both outputs as they were: the key
  setup rejects the size, at every length below \<open>2 ^ 61\<close> among others; only where
  \<open>desired_keylen * 8\<close> has wrapped onto 128, 192 or 256 is the key accepted, and there the
  return of -1 is that of \<open>calloc\<close> giving no block of that size.
\<close>

theorem accepted_key_lengths:
  assumes "functioning P"
  shows "(d \<in> {16, 24, 32} \<and> calloc_succeeds P d \<and> length salt + 4 \<le> unat d \<longrightarrow>
            (\<exists>out. crypto_pass2key P keydata salt d okd okl = Inr out \<and> ret out = 0))
       \<and> (d \<notin> {16, 24, 32} \<and> min (length keydata) (unat d) \<le> 32
          \<and> (d * 8 \<in> {128, 192, 256} \<longrightarrow> \<not> calloc_succeeds P d) \<longrightarrow>
            crypto_pass2key P keydata salt d okd okl =
              Inr \<lparr>ret = - 1, keydata_out = okd, keylen_out = okl, buffer_freed = False,
                   cbc_calls = []\<rparr>)
       \<and> (d \<notin> {16, 24, 32} \<and> unat d < 2 ^ 61 \<longrightarrow>
            d * 8 \<notin> {128, 192, 256} \<and> fst (aes_setkey_enc P statickey (d * 8)) \<noteq> 0)"
proof (intro conjI impI)
  assume a: "d \<in> {16, 24, 32} \<and> calloc_succeeds P d \<and> length salt + 4 \<le> unat d"
  then have u: "min (length keydata) (unat d) \<le> 32" by auto
  then obtain sk where sk: "fill_statickey keydata d = Some sk"
    by (simp add: fill_statickey_eq)
  have "d * 8 \<in> {128, 192, 256}" using a by auto
  then have k: "fst (aes_setkey_enc P sk (d * 8)) = 0"
    using assms by (simp add: functioning_def)
  show "\<exists>out. crypto_pass2key P keydata salt d okd okl = Inr out \<and> ret out = 0"
    using pass2key_succeeds [OF sk k] a assms by (simp add: functioning_def)
next
  assume a: "d \<notin> {16, 24, 32} \<and> min (length keydata) (unat d) \<le> 32
          \<and> (d * 8 \<in> {128, 192, 256} \<longrightarrow> \<not> calloc_succeeds P d)"
  then obtain sk where sk: "fill_statickey keydata d = Some sk"
    by (simp add: fill_statickey_eq)
  show "crypto_pass2key P keydata salt d okd okl =
          Inr \<lparr>ret = - 1, keydata_out = okd, keylen_out = okl, buffer_freed = False,
               cbc_calls = []\<rparr>"
  proof (cases "d * 8 \<in> {128, 192, 256}")
    case False
    then have k: "fst (aes_setkey_enc P sk (d * 8)) \<noteq> 0"
      using assms by (simp add: functioning_def)
    show ?thesis using pass2key_rejected [OF sk k] by (simp add: out_label_def)
  next
    case True
    then have "\<not> calloc_succeeds P d" using a by simp
    from pass2key_no_block [OF sk this] show ?thesis by (simp add: out_label_def)
  qed
next
  assume a: "d \<notin> {16, 24, 32} \<and> unat d < 2 ^ 61"
  then show w: "d * 8 \<notin> {128, 192, 256}" using keysize_bits [of d] by simp
  then show "fst (aes_setkey_enc P statickey (d * 8)) \<noteq> 0"
    using assms by (simp add: functioning_def)
qed

text \<open>
  The statement at the lengths 24 and 33, and at \<open>2 ^ 61 + 16\<close>, where the key size wraps
  to 128 and the allocator returns no block.
\<close>

theorem accepted_key_lengths_witness:
  "functioning (stub None Little_endian)
   \<and> (\<exists>out. crypto_pass2key (stub None Little_endian) [1, 2, 3] [4, 5] 24 (Cell None) (Cell 0)
               = Inr out \<and> ret out = 0)
   \<and> unat (33 :: size_t) < 2 ^ 61
   \<and> fst (aes_setkey_enc (stub None Little_endian) (replicate 32 0) (33 * 8)) \<noteq> 0
   \<and> crypto_pass2key (stub None Little_endian) [1, 2, 3] [4, 5] 33 (Cell None) (Cell 0)
       = Inr \<lparr>ret = - 1, keydata_out = Cell None, keylen_out = Cell 0, buffer_freed = False,
              cbc_calls = []\<rparr>
   \<and> functioning (stub_no_memory Little_endian)
   \<and> (2 ^ 61 + 16 :: size_t) * 8 = 128
   \<and> \<not> calloc_succeeds (stub_no_memory Little_endian) (2 ^ 61 + 16)
   \<and> crypto_pass2key (stub_no_memory Little_endian) [1, 2, 3] [4, 5] (2 ^ 61 + 16)
         (Cell None) (Cell 0)
       = Inr \<lparr>ret = - 1, keydata_out = Cell None, keylen_out = Cell 0, buffer_freed = False,
              cbc_calls = []\<rparr>"
proof -
  have m: "\<not> calloc_succeeds (stub_no_memory Little_endian) (2 ^ 61 + 16)"
    by (simp add: stub_no_memory_def)
  have b: "(2 ^ 61 + 16 :: size_t) * 8 = 128" by simp
  have u: "min (length [1, 2, 3 :: byte]) (unat (2 ^ 61 + 16 :: size_t)) \<le> 32" by simp
  have n: "(2 ^ 61 + 16 :: size_t) \<notin> {16, 24, 32}" by simp
  show ?thesis
    using accepted_key_lengths [OF functioning_stub, of 24 Little_endian "[4, 5]" "[1, 2, 3]"
        "Cell None" "Cell 0"]
      accepted_key_lengths [OF functioning_stub, of 33 Little_endian "[4, 5]" "[1, 2, 3]"
        "Cell None" "Cell 0" "replicate 32 0"]
      accepted_key_lengths [OF functioning_stub_no_memory, of "2 ^ 61 + 16" Little_endian
        "[4, 5]" "[1, 2, 3]" "Cell None" "Cell 0"] m b u n
    by (simp add: functioning_stub functioning_stub_no_memory stub_simps)
qed

text \<open>
  Without those conditions the statement of C3 fails, each time on a functioning primitive:
  at the length 33 a password of 33 bytes is copied beyond \<open>statickey[32]\<close> before the key
  size is looked at; at the length 16 a salt of 13 bytes takes the iteration bytes beyond
  the block; and at the length 16 the function returns -1 when \<open>calloc\<close> returns no block.
\<close>

theorem accepted_key_lengths_counterexample:
  "functioning (stub None Little_endian)
   \<and> crypto_pass2key (stub None Little_endian) (replicate 33 1) [] 33 (Cell None) (Cell 0)
       = Inl Statickey_overrun
   \<and> crypto_pass2key (stub None Little_endian) [] (replicate 13 1) 16 (Cell None) (Cell 0)
       = Inl Buffer_overrun
   \<and> functioning (stub_no_memory Little_endian)
   \<and> map_sum id ret
       (crypto_pass2key (stub_no_memory Little_endian) [] [] 16 (Cell None) (Cell 0))
       = Inr (- 1)"
proof -
  have a: "crypto_pass2key (stub None Little_endian) (replicate 33 1) [] 33 (Cell None) (Cell 0)
       = Inl Statickey_overrun"
    by (simp add: crypto_pass2key_def fill_statickey_eq)
  have c: "crypto_pass2key (stub None Little_endian) [] (replicate 13 1) 16 (Cell None) (Cell 0)
       = Inl Buffer_overrun"
    by (simp add: crypto_pass2key_def fill_statickey_eq init_buffer_eq stub_simps)
  have "fill_statickey [] 16 = Some (replicate 32 0)" by (simp add: fill_statickey_eq)
  from pass2key_no_block [OF this, of "stub_no_memory Little_endian" "[]" "Cell None" "Cell 0"]
  have d: "map_sum id ret
       (crypto_pass2key (stub_no_memory Little_endian) [] [] 16 (Cell None) (Cell 0))
       = Inr (- 1)"
    by (simp add: stub_no_memory_def stub_def out_label_def)
  show ?thesis using a c d by (simp add: functioning_stub functioning_stub_no_memory)
qed

text \<open>
  Claim C4: for some input with \<open>len(salt) + 4\<close> above the desired key length the assembly of
  the work buffer writes beyond the allocated block, with neither an error return nor a
  bounded write; the writes stay inside exactly when \<open>len(salt) + 4\<close> is at most the desired
  key length.

  Once the key is set up and the block allocated, the run ends in the overrun of the block
  if and only if the desired length is below \<open>len(salt) + 4\<close>.
\<close>

theorem work_buffer_overrun:
  "fill_statickey keydata d = Some statickey \<Longrightarrow>
   fst (aes_setkey_enc P statickey (d * 8)) = 0 \<Longrightarrow> calloc_succeeds P d \<Longrightarrow>
   (crypto_pass2key P keydata salt d okd okl = Inl Buffer_overrun) = (unat d < length salt + 4)"
  by (auto simp: crypto_pass2key_def init_buffer_eq split: option.splits prod.splits if_splits)

text \<open>A salt of 13 bytes at the desired length 16.\<close>

theorem work_buffer_overrun_witness:
  "fill_statickey [] 16 = Some (replicate 32 0)
   \<and> fst (aes_setkey_enc (stub None Little_endian) (replicate 32 0) (16 * 8)) = 0
   \<and> calloc_succeeds (stub None Little_endian) 16
   \<and> unat (16 :: size_t) < length (replicate 13 (1 :: byte)) + 4
   \<and> crypto_pass2key (stub None Little_endian) [] (replicate 13 1) 16 (Cell None) (Cell 0)
       = Inl Buffer_overrun"
proof -
  have a: "fill_statickey [] 16 = Some (replicate 32 0)" by (simp add: fill_statickey_eq)
  have b: "fst (aes_setkey_enc (stub None Little_endian) (replicate 32 0) (16 * 8)) = 0"
    by (simp add: stub_simps)
  have c: "calloc_succeeds (stub None Little_endian) 16" by (simp add: stub_simps)
  show ?thesis
    using a b c work_buffer_overrun [OF a b c, of "replicate 13 1" "Cell None" "Cell 0"]
    by simp
qed

text \<open>
  Claim C5: for every salt with \<open>len(salt) + 4\<close> at most the desired key length, the initial
  work buffer of desired-key-length bytes holds the salt at offset 0, then the four bytes of
  the constant 1000 in the machine's representation, and zero in all remaining bytes.

  This is what lines 69 to 73 assemble, and what the first encryption call of a run is
  given; the four bytes are \<open>e8 03 00 00\<close> on a little-endian machine and \<open>00 00 03 e8\<close> on
  a big-endian one.
\<close>

theorem initial_work_buffer:
  "(length salt + 4 \<le> unat d \<longrightarrow>
      init_buffer e salt d
        = Some (salt @ native_bytes e iterations @ replicate (unat d - (length salt + 4)) 0)
      \<and> length (salt @ native_bytes e iterations @ replicate (unat d - (length salt + 4)) 0)
          = unat d)
   \<and> (crypto_pass2key P keydata salt d okd okl = Inr out \<and> cbc_calls out \<noteq> [] \<longrightarrow>
        length salt + 4 \<le> unat d
        \<and> arg_input (hd (cbc_calls out))
            = salt @ native_bytes (byte_order P) iterations
                @ replicate (unat d - (length salt + 4)) 0)
   \<and> native_bytes Little_endian iterations = [232, 3, 0, 0]
   \<and> native_bytes Big_endian iterations = [0, 0, 3, 232]"
  using pass2key_first_call [of P keydata salt d okd okl out]
  by (simp add: init_buffer_eq length_native_bytes native_bytes_iterations)

text \<open>A salt of three bytes at the desired length 16.\<close>

theorem initial_work_buffer_witness:
  "length [1, 2, 3 :: byte] + 4 \<le> unat (16 :: size_t)
   \<and> init_buffer Little_endian [1, 2, 3] 16
       = Some [1, 2, 3, 232, 3, 0, 0, 0, 0, 0, 0, 0, 0, 0, 0, 0]
   \<and> (\<exists>out. crypto_pass2key (stub (Some 0) Little_endian) [] [1, 2, 3] 16 (Cell None) (Cell 0)
               = Inr out \<and> cbc_calls out \<noteq> []
             \<and> arg_input (hd (cbc_calls out))
                 = [1, 2, 3, 232, 3, 0, 0, 0, 0, 0, 0, 0, 0, 0, 0, 0])"
proof -
  let ?out = "out_label (- 1)
      (Some ([1, 2, 3] @ native_bytes Little_endian iterations @ replicate (unat (16 :: size_t) - (length [1, 2, 3 :: byte] + 4)) 0))
      (Cell None) (Cell 0)
      [\<lparr>arg_length = 16, arg_iv = replicate 16 0,
        arg_input = [1, 2, 3] @ native_bytes Little_endian iterations
                      @ replicate (unat (16 :: size_t) - (length [1, 2, 3 :: byte] + 4)) 0,
        status = - 1, left_iv = replicate 16 0,
        left_output = [1, 2, 3] @ native_bytes Little_endian iterations
                        @ replicate (unat (16 :: size_t) - (length [1, 2, 3 :: byte] + 4)) 0\<rparr>]"
  have run: "crypto_pass2key (stub (Some 0) Little_endian) [] [1, 2, 3] 16 (Cell None) (Cell 0)
               = Inr ?out"
    by (rule stub_run_first_call_fails) simp_all
  have ne: "cbc_calls ?out \<noteq> []" by (simp add: out_label_def)
  from initial_work_buffer [of "[1, 2, 3]" 16 Little_endian "stub (Some 0) Little_endian" "[]"
      "Cell None" "Cell 0" ?out] run ne
  have "init_buffer Little_endian [1, 2, 3] 16
          = Some [1, 2, 3, 232, 3, 0, 0, 0, 0, 0, 0, 0, 0, 0, 0, 0]"
    and "arg_input (hd (cbc_calls ?out)) = [1, 2, 3, 232, 3, 0, 0, 0, 0, 0, 0, 0, 0, 0, 0, 0]"
    by (simp_all add: stub_simps out_label_def native_bytes_iterations replicate_numeral)
  with run ne show ?thesis by auto
qed

text \<open>
  Claim C6: for the desired key length 16, a password of 20 bytes and its first 16 bytes give
  the same seed key and, for equal salt, the same derived key; a password of 4 bytes gives
  those 4 bytes followed by 12 zero bytes; the seed key is the first
  \<open>min(len(password), desired length)\<close> password bytes, padded with zeros on the right to the
  desired length.

  The two runs are equal as wholes, for every primitive. The general form holds for every
  desired length that \<open>statickey\<close> can hold, that is up to 32; the array itself then holds
  the same bytes padded to its 32.
\<close>

theorem seed_key_truncates_and_pads:
  "(length pw20 = 20 \<longrightarrow>
      seed_key pw20 16 = seed_key (take 16 pw20) 16
      \<and> crypto_pass2key P pw20 salt 16 okd okl = crypto_pass2key P (take 16 pw20) salt 16 okd okl)
   \<and> (length pw4 = 4 \<longrightarrow> seed_key pw4 16 = Some (pw4 @ replicate 12 0))
   \<and> (unat d \<le> 32 \<longrightarrow>
        seed_key keydata d
          = Some (take (min (length keydata) (unat d)) keydata
                    @ replicate (unat d - min (length keydata) (unat d)) 0)
        \<and> fill_statickey keydata d
          = Some (take (min (length keydata) (unat d)) keydata
                    @ replicate (32 - min (length keydata) (unat d)) 0))"
  using pass2key_take [of P 16 pw20 salt okd okl]
  by (simp add: seed_key_eq fill_statickey_eq min.coboundedI2)

text \<open>Passwords of 20, 4 and 3 bytes.\<close>

theorem seed_key_truncates_and_pads_witness:
  "length [1, 2, 3, 4, 5, 6, 7, 8, 9, 10, 11, 12, 13, 14, 15, 16, 17, 18, 19, 20 :: byte] = 20
   \<and> seed_key [1, 2, 3, 4, 5, 6, 7, 8, 9, 10, 11, 12, 13, 14, 15, 16, 17, 18, 19, 20] 16
       = seed_key [1, 2, 3, 4, 5, 6, 7, 8, 9, 10, 11, 12, 13, 14, 15, 16] 16
   \<and> crypto_pass2key (stub None Little_endian)
         [1, 2, 3, 4, 5, 6, 7, 8, 9, 10, 11, 12, 13, 14, 15, 16, 17, 18, 19, 20] [9, 9] 16
         (Cell None) (Cell 0)
       = crypto_pass2key (stub None Little_endian)
           [1, 2, 3, 4, 5, 6, 7, 8, 9, 10, 11, 12, 13, 14, 15, 16] [9, 9] 16 (Cell None) (Cell 0)
   \<and> length [1, 2, 3, 4 :: byte] = 4
   \<and> seed_key [1, 2, 3, 4] 16 = Some [1, 2, 3, 4, 0, 0, 0, 0, 0, 0, 0, 0, 0, 0, 0, 0]
   \<and> unat (24 :: size_t) \<le> 32
   \<and> seed_key [1, 2, 3] 24
       = Some [1, 2, 3, 0, 0, 0, 0, 0, 0, 0, 0, 0, 0, 0, 0, 0, 0, 0, 0, 0, 0, 0, 0, 0]
   \<and> fill_statickey [1, 2, 3] 24
       = Some [1, 2, 3, 0, 0, 0, 0, 0, 0, 0, 0, 0, 0, 0, 0, 0, 0, 0, 0, 0, 0, 0, 0, 0,
               0, 0, 0, 0, 0, 0, 0, 0]"
  using seed_key_truncates_and_pads [of
      "[1, 2, 3, 4, 5, 6, 7, 8, 9, 10, 11, 12, 13, 14, 15, 16, 17, 18, 19, 20]"
      "stub None Little_endian" "[9, 9]" "Cell None" "Cell 0" "[1, 2, 3, 4]" 24 "[1, 2, 3]"]
  by (simp add: replicate_numeral)

text \<open>
  Claim C7: whenever the function returns a failure (a non-zero result), the locations
  \<open>*out_keydata\<close> and \<open>*out_keylen\<close> are left as they were: no pointer and no length is
  stored on a failure path.
\<close>

theorem failure_leaves_outputs_untouched:
  "crypto_pass2key P keydata salt d okd okl = Inr out \<Longrightarrow> ret out \<noteq> 0 \<Longrightarrow>
   keydata_out out = okd \<and> keylen_out out = okl"
  by (auto simp: crypto_pass2key_def out_label_def split: option.splits prod.splits if_splits)

text \<open>
  A desired length of 15, which the key setup rejects, and a cipher that fails on its call
  number 500.
\<close>

theorem failure_leaves_outputs_untouched_witness:
  "(\<exists>out. crypto_pass2key (stub None Little_endian) [1, 2] [3] 15 (Cell None) (Cell 7) = Inr out
           \<and> ret out \<noteq> 0 \<and> keydata_out out = Cell None \<and> keylen_out out = Cell 7)
   \<and> (\<exists>out. crypto_pass2key (stub (Some 500) Little_endian) [1, 2] [3] 16 (Cell None) (Cell 7)
               = Inr out
           \<and> ret out \<noteq> 0 \<and> length (cbc_calls out) = 501
           \<and> keydata_out out = Cell None \<and> keylen_out out = Cell 7)"
proof (intro conjI)
  have "fill_statickey [1, 2] 15 = Some ([1, 2] @ replicate 30 0)"
    by (simp add: fill_statickey_eq)
  from pass2key_rejected [OF this, of "stub None Little_endian" "[3]" "Cell None" "Cell 7"]
  obtain out where
    run: "crypto_pass2key (stub None Little_endian) [1, 2] [3] 15 (Cell None) (Cell 7) = Inr out"
    and r: "ret out \<noteq> 0"
    by (simp add: stub_simps out_label_def)
  from run r failure_leaves_outputs_untouched [OF run r]
  show "\<exists>out. crypto_pass2key (stub None Little_endian) [1, 2] [3] 15 (Cell None) (Cell 7) = Inr out
           \<and> ret out \<noteq> 0 \<and> keydata_out out = Cell None \<and> keylen_out out = Cell 7"
    by auto
next
  from stub_run_fail [where j = 500 and d = 16 and keydata = "[1, 2]" and salt = "[3]"
      and e = Little_endian and okd = "Cell None" and okl = "Cell 7"]
  obtain out where
    run: "crypto_pass2key (stub (Some 500) Little_endian) [1, 2] [3] 16 (Cell None) (Cell 7)
            = Inr out"
    and r: "ret out \<noteq> 0" and l: "length (cbc_calls out) = 501"
    by (auto simp: out_label_def)
  from run r l failure_leaves_outputs_untouched [OF run r]
  show "\<exists>out. crypto_pass2key (stub (Some 500) Little_endian) [1, 2] [3] 16 (Cell None) (Cell 7)
               = Inr out
           \<and> ret out \<noteq> 0 \<and> length (cbc_calls out) = 501
           \<and> keydata_out out = Cell None \<and> keylen_out out = Cell 7"
    by auto
qed



text \<open>
  Claim C9: the password bytes are copied into the 32-byte array \<open>statickey\<close> before the
  cipher primitive validates the key size, so for some call with a desired key length above
  32 and a password at least that long the copy of \<open>min(len(password), desired length)\<close>
  bytes leaves the array before the key size can be rejected; the copy stays inside only
  when the desired key length is at most 32.

  Whatever the primitive, the run ends in the overrun of \<open>statickey\<close> if and only if more
  than 32 bytes are to be copied; no password can cause it exactly when the desired length
  is at most 32.
\<close>

theorem statickey_overrun:
  "(crypto_pass2key P keydata salt d okd okl = Inl Statickey_overrun)
      = (32 < min (length keydata) (unat d))
   \<and> (32 < unat d \<and> unat d \<le> length keydata \<longrightarrow>
        crypto_pass2key P keydata salt d okd okl = Inl Statickey_overrun)
   \<and> ((\<forall>pw. crypto_pass2key P pw salt d okd okl \<noteq> Inl Statickey_overrun) = (unat d \<le> 32))"
proof -
  have a: "(crypto_pass2key P pw salt d okd okl = Inl Statickey_overrun)
      = (32 < min (length pw) (unat d))" for pw
    by (auto simp: crypto_pass2key_def fill_statickey_eq
        split: option.splits prod.splits if_splits)
  have "(\<forall>pw :: byte list. \<not> 32 < min (length pw) (unat d)) = (unat d \<le> 32)"
  proof
    assume "\<forall>pw :: byte list. \<not> 32 < min (length pw) (unat d)"
    then have "\<not> 32 < min (length (replicate (unat d) (0 :: byte))) (unat d)" by blast
    then show "unat d \<le> 32" by simp
  qed auto
  then show ?thesis by (simp add: a)
qed

text \<open>
  The desired length 33 on a functioning primitive, which would reject 264 bits: a password
  of 33 bytes overruns, one of 32 bytes does not.
\<close>

theorem statickey_overrun_witness:
  "functioning (stub None Little_endian)
   \<and> 32 < unat (33 :: size_t) \<and> unat (33 :: size_t) \<le> length (replicate 33 (1 :: byte))
   \<and> crypto_pass2key (stub None Little_endian) (replicate 33 1) [] 33 (Cell None) (Cell 0)
       = Inl Statickey_overrun
   \<and> crypto_pass2key (stub None Little_endian) (replicate 32 1) [] 33 (Cell None) (Cell 0)
       \<noteq> Inl Statickey_overrun"
  using statickey_overrun [of "stub None Little_endian" "replicate 33 1" "[]" 33
      "Cell None" "Cell 0"]
    statickey_overrun [of "stub None Little_endian" "replicate 32 1" "[]" 33
      "Cell None" "Cell 0"]
  by (simp add: functioning_stub)

text \<open>
  Claim C10: on every input on which the derivation succeeds, a call with a null
  \<open>out_keydata\<close> still returns 0, frees the derived-key buffer itself instead of handing it
  over, and still stores the desired key length into \<open>*out_keylen\<close> when that pointer is not
  null; no key material reaches the caller.

  The run with a null \<open>out_keydata\<close> is the successful run with the key pointer left null
  and \<open>free(buffer)\<close> executed; the call log, the returned 0 and the stored length are the
  same.
\<close>

theorem null_out_keydata:
  "crypto_pass2key P keydata salt d okd okl = Inr out \<Longrightarrow> ret out = 0 \<Longrightarrow>
   crypto_pass2key P keydata salt d Null_param okl
     = Inr (out\<lparr>keydata_out := Null_param, buffer_freed := True\<rparr>)
   \<and> keylen_out out = (case okl of Null_param \<Rightarrow> Null_param | Cell v \<Rightarrow> Cell d)"
  by (auto simp: crypto_pass2key_def out_label_def iterations_def
      split: option.splits prod.splits if_splits out_param.splits dest: for_loop_counter)

text \<open>A successful run at the desired length 16, with and without \<open>out_keydata\<close>.\<close>

theorem null_out_keydata_witness:
  "\<exists>out. crypto_pass2key (stub None Little_endian) [1, 2] [3] 16 (Cell None) (Cell 0) = Inr out
         \<and> ret out = 0
         \<and> crypto_pass2key (stub None Little_endian) [1, 2] [3] 16 Null_param (Cell 0)
             = Inr (out\<lparr>keydata_out := Null_param, buffer_freed := True\<rparr>)
         \<and> keylen_out out = Cell 16"
proof -
  from stub_run_through [where f = None and d = 16 and keydata = "[1, 2]" and salt = "[3]"
      and e = Little_endian and okd = "Cell None" and okl = "Cell 0"]
  obtain out where
    run: "crypto_pass2key (stub None Little_endian) [1, 2] [3] 16 (Cell None) (Cell 0) = Inr out"
    and r: "ret out = 0"
    by (auto simp: out_label_def)
  from run r null_out_keydata [OF run r] show ?thesis by auto
qed

end
